theory Spec2Isabelle
  imports Main "HOL-Library.Sublist"
begin

section \<open>The ImageUpload component of frontend/src/home.js\<close>

text \<open>
  The component keeps six \<open>useState\<close> cells, reacts to five kinds of user events and
  starts one asynchronous request from an effect bound to \<open>[preview, selectedFile]\<close>.
  Every handler is a function on an explicit state; the browser's object-URL store and the
  log of issued requests are part of that state, so that leaks and duplicate calls are
  visible. A request that was issued and has not settled sits in \<open>pending\<close>; its
  settlement is an event of its own, which is how out-of-order responses are expressed.
\<close>

subsection \<open>Values\<close>

text \<open>A \<open>File\<close>: only \<open>file.type\<close> is inspected by the component.\<close>

record jsfile =
  file_name :: string
  file_type :: string

text \<open>Object URLs as handed out by \<open>URL.createObjectURL\<close>: each call yields a new one.\<close>

type_synonym url = nat

text \<open>The JavaScript values a parsed response body can be.\<close>

datatype jsval =
    JUndefined
  | JNull
  | JBool bool
  | JNum int
  | JStr string
  | JArr "jsval list"
  | JObj "(string \<times> jsval) list"

text \<open>
  \<open>response.data.prediction\<close>. Reading a property of \<open>null\<close> or \<open>undefined\<close> throws a
  TypeError (\<open>None\<close>); an object yields the member, the last binding of a repeated key
  winning as in \<open>JSON.parse\<close>; every other value has no such property and yields
  \<open>undefined\<close>.
\<close>

fun prediction_of :: "jsval \<Rightarrow> jsval option" where
  "prediction_of JUndefined = None"
| "prediction_of JNull = None"
| "prediction_of (JObj kvs) =
     Some (case map_of (rev kvs) ''prediction'' of None \<Rightarrow> JUndefined | Some v \<Rightarrow> v)"
| "prediction_of (JBool b) = Some JUndefined"
| "prediction_of (JNum n) = Some JUndefined"
| "prediction_of (JStr s) = Some JUndefined"
| "prediction_of (JArr vs) = Some JUndefined"

record analysis_result =
  condition :: jsval
  confidence :: nat

subsection \<open>The HTTP client\<close>

text \<open>What the network does with one request.\<close>

datatype http_outcome =
    NetworkError
  | HttpResponse int jsval

record response =
  status :: int
  data :: jsval

text \<open>
  The call \<open>axios({method: "post", ...})\<close> passes no \<open>validateStatus\<close>, so the library's
  default applies: the promise resolves for a status from 200 to 299 and rejects
  otherwise, as it does when no response arrives. \<open>None\<close> is the rejected promise.
\<close>

definition validateStatus :: "int \<Rightarrow> bool" where
  "validateStatus s = (200 \<le> s \<and> s < 300)"

fun axios :: "http_outcome \<Rightarrow> response option" where
  "axios NetworkError = None"
| "axios (HttpResponse s b) =
     (if validateStatus s then Some \<lparr>status = s, data = b\<rparr> else None)"

subsection \<open>Component state\<close>

record component =
  selectedFile :: "jsfile option"
  preview :: "url option"
  results :: "analysis_result option"
  isAnalyzing :: bool
  error :: "string option"
  dragActive :: bool

text \<open>
  The component together with what it has done to its surroundings:
  \<open>createdURLs\<close> lists every URL obtained from \<open>URL.createObjectURL\<close>,
  \<open>revokedURLs\<close> every URL given to \<open>URL.revokeObjectURL\<close>,
  \<open>requests\<close> the file of every request issued, in order, and
  \<open>pending\<close> the positions in \<open>requests\<close> of those not yet settled.
\<close>

record world =
  ui :: component
  createdURLs :: "url list"
  revokedURLs :: "url list"
  requests :: "jsfile option list"
  pending :: "nat list"

definition init :: world where
  "init = \<lparr>ui = \<lparr>selectedFile = None, preview = None, results = None,
                  isAnalyzing = False, error = None, dragActive = False\<rparr>,
            createdURLs = [], revokedURLs = [], requests = [], pending = []\<rparr>"

definition failure_message :: string where
  "failure_message =
     ''We couldn't analyze this image. Please try with another photo of a potato leaf.''"

subsection \<open>Handlers\<close>

definition processSelectedFile :: "jsfile \<Rightarrow> world \<Rightarrow> world" where
  "processSelectedFile f w =
     (let u = length (createdURLs w) in
      w\<lparr>ui := (ui w)\<lparr>selectedFile := Some f, error := None, results := None,
                      preview := Some u\<rparr>,
        createdURLs := createdURLs w @ [u]\<rparr>)"

text \<open>\<open>e.target.files[0]\<close> is \<open>undefined\<close> for an empty list, which the guard rejects.\<close>

definition handleFileChange :: "jsfile list \<Rightarrow> world \<Rightarrow> world" where
  "handleFileChange files w =
     (case files of
        [] \<Rightarrow> w
      | f # rest \<Rightarrow>
          if prefix ''image/'' (file_type f) then processSelectedFile f w else w)"

definition setDragActive :: "bool \<Rightarrow> world \<Rightarrow> world" where
  "setDragActive b w = w\<lparr>ui := (ui w)\<lparr>dragActive := b\<rparr>\<rparr>"

definition handleDrag :: "string \<Rightarrow> world \<Rightarrow> world" where
  "handleDrag ty w =
     (if ty = ''dragenter'' \<or> ty = ''dragover'' then setDragActive True w
      else if ty = ''dragleave'' then setDragActive False w
      else w)"

definition handleDrop :: "jsfile list \<Rightarrow> world \<Rightarrow> world" where
  "handleDrop files w =
     (let w1 = setDragActive False w in
      case files of
        [] \<Rightarrow> w1
      | f # rest \<Rightarrow>
          if prefix ''image/'' (file_type f) then processSelectedFile f w1 else w1)"

definition resetAnalysis :: "world \<Rightarrow> world" where
  "resetAnalysis w =
     w\<lparr>ui := (ui w)\<lparr>selectedFile := None, preview := None, results := None,
                     error := None\<rparr>\<rparr>"

subsection \<open>The effect and the request\<close>

text \<open>
  \<open>analyzeImage\<close> up to its \<open>await\<close>: the flag is raised, the error cleared and the
  request sent with the \<open>selectedFile\<close> of the render that scheduled the effect.
\<close>

definition analyzeImage :: "world \<Rightarrow> world" where
  "analyzeImage w =
     w\<lparr>ui := (ui w)\<lparr>isAnalyzing := True, error := None\<rparr>,
       requests := requests w @ [selectedFile (ui w)],
       pending := pending w @ [length (requests w)]\<rparr>"

text \<open>
  The effect runs after a render whose dependencies \<open>[preview, selectedFile]\<close> differ from
  those of the previous render (\<open>prev\<close>), and returns at once when there is no preview.
\<close>

definition useEffect :: "component \<Rightarrow> world \<Rightarrow> world" where
  "useEffect prev w =
     (if preview (ui w) = preview prev \<and> selectedFile (ui w) = selectedFile prev then w
      else if preview (ui w) = None then w
      else analyzeImage w)"

text \<open>
  \<open>analyzeImage\<close> after its \<open>await\<close>: the \<open>try\<close> body on a resolved promise, the
  \<open>catch\<close> on a rejected one or on a TypeError thrown in the \<open>try\<close> body, and the
  \<open>finally\<close> in every case. The setters write the component's current state, whichever
  render the request was started from.
\<close>

definition analyzeImage_resume :: "response option \<Rightarrow> component \<Rightarrow> component" where
  "analyzeImage_resume r c =
     (case r of
        None \<Rightarrow> c\<lparr>error := Some failure_message, isAnalyzing := False\<rparr>
      | Some resp \<Rightarrow>
          if status resp = 200 then
            (case prediction_of (data resp) of
               None \<Rightarrow> c\<lparr>error := Some failure_message, isAnalyzing := False\<rparr>
             | Some p \<Rightarrow>
                 c\<lparr>results := Some \<lparr>condition = p, confidence = 98\<rparr>,
                   isAnalyzing := False\<rparr>)
          else c\<lparr>isAnalyzing := False\<rparr>)"

definition settle :: "nat \<Rightarrow> http_outcome \<Rightarrow> world \<Rightarrow> world" where
  "settle i out w =
     w\<lparr>ui := analyzeImage_resume (axios out) (ui w),
       pending := removeAll i (pending w)\<rparr>"

subsection \<open>Presentation\<close>

definition getConditionClass :: "component \<Rightarrow> string" where
  "getConditionClass c =
     (case results c of
        None \<Rightarrow> ''''
      | Some r \<Rightarrow> if condition r = JStr ''Healthy'' then ''healthy'' else ''disease'')"

text \<open>
  What React accepts as a child in \<open>{results.condition}\<close>: a string or a number is
  shown, a boolean, \<open>null\<close> and \<open>undefined\<close> show nothing, an array is rendered member
  by member, and a plain object makes the render throw.
\<close>

fun renderable :: "jsval \<Rightarrow> bool" where
  "renderable (JObj kvs) = False"
| "renderable (JArr vs) = list_all renderable vs"
| "renderable v = True"

text \<open>
  The result block. Its header shows \<open>{results.condition}\<close>, and below it comes one of
  two bodies, chosen by \<open>results.condition !== 'Healthy'\<close>. \<open>None\<close> is the render
  throwing on a condition React cannot show, after which the page is gone.
\<close>

datatype guidance = RecommendedAction | MaintenanceTips

definition result_details :: "analysis_result \<Rightarrow> guidance option" where
  "result_details r =
     (if \<not> renderable (condition r) then None
      else if condition r \<noteq> JStr ''Healthy'' then Some RecommendedAction
      else Some MaintenanceTips)"

subsection \<open>Events\<close>

datatype event =
    Change "jsfile list"
  | Drag string
  | Drop "jsfile list"
  | Reset
  | Settle nat http_outcome

fun handler :: "event \<Rightarrow> world \<Rightarrow> world" where
  "handler (Change files) w = handleFileChange files w"
| "handler (Drag ty) w = handleDrag ty w"
| "handler (Drop files) w = handleDrop files w"
| "handler Reset w = resetAnalysis w"
| "handler (Settle i out) w = settle i out w"

text \<open>One event: its handler, the render of the new state, then the effect.\<close>

definition step :: "event \<Rightarrow> world \<Rightarrow> world" where
  "step e w = useEffect (ui w) (handler e w)"

text \<open>
  What the rendered page lets happen: the file input exists only while there is no
  preview, the two reset buttons only beside a result or an error, the drag handlers are
  bound to \<open>dragenter\<close>, \<open>dragover\<close> and \<open>dragleave\<close>, the drop target is always there, and
  only a request that is still pending can settle.
\<close>

fun enabled :: "event \<Rightarrow> world \<Rightarrow> bool" where
  "enabled (Change files) w = (preview (ui w) = None)"
| "enabled (Drag ty) w = (ty = ''dragenter'' \<or> ty = ''dragover'' \<or> ty = ''dragleave'')"
| "enabled (Drop files) w = True"
| "enabled Reset w = (results (ui w) \<noteq> None \<or> error (ui w) \<noteq> None)"
| "enabled (Settle i out) w = (i \<in> set (pending w))"

fun exec :: "world \<Rightarrow> event list \<Rightarrow> world option" where
  "exec w [] = Some w"
| "exec w (e # es) = (if enabled e w then exec (step e w) es else None)"

inductive reachable :: "world \<Rightarrow> bool" where
  reachable_init: "reachable init"
| reachable_step: "reachable w \<Longrightarrow> enabled e w \<Longrightarrow> reachable (step e w)"

text \<open>An event that selects a file the component accepts.\<close>

fun selects :: "event \<Rightarrow> jsfile option" where
  "selects (Change (f # rest)) = (if prefix ''image/'' (file_type f) then Some f else None)"
| "selects (Drop (f # rest)) = (if prefix ''image/'' (file_type f) then Some f else None)"
| "selects e = None"

text \<open>
  The same, for a user who never selects a file while a request is pending: then at most
  one request is in flight at any time.
\<close>

fun enabled_seq :: "event \<Rightarrow> world \<Rightarrow> bool" where
  "enabled_seq e w = (enabled e w \<and> (selects e = None \<or> pending w = []))"

inductive reachable_seq :: "world \<Rightarrow> bool" where
  reachable_seq_init: "reachable_seq init"
| reachable_seq_step: "reachable_seq w \<Longrightarrow> enabled_seq e w \<Longrightarrow> reachable_seq (step e w)"

text \<open>
  What the render shows: the spinner block under \<open>isAnalyzing\<close>, the result block under
  \<open>results\<close>, the error block under \<open>error\<close>, and the upload prompt (with the file
  input) exactly when there is no preview.
\<close>

definition active_blocks :: "component \<Rightarrow> nat" where
  "active_blocks c =
     length (filter id [isAnalyzing c, results c \<noteq> None, error c \<noteq> None])"

definition shows_upload_prompt :: "component \<Rightarrow> bool" where
  "shows_upload_prompt c = (preview c = None)"

text \<open>A preview, when there is one, is a URL that \<open>URL.createObjectURL\<close> has handed out.\<close>

definition fresh_preview :: "world \<Rightarrow> bool" where
  "fresh_preview w =
     (case preview (ui w) of None \<Rightarrow> True | Some u \<Rightarrow> u < length (createdURLs w))"

text \<open>How often a URL has been released.\<close>

definition release_count :: "world \<Rightarrow> url \<Rightarrow> nat" where
  "release_count w u = count_list (revokedURLs w) u"

text \<open>The request ends in the \<open>catch\<close> block of \<open>analyzeImage\<close>.\<close>

definition attempt_fails :: "http_outcome \<Rightarrow> bool" where
  "attempt_fails out =
     (case axios out of
        None \<Rightarrow> True
      | Some resp \<Rightarrow> status resp = 200 \<and> prediction_of (data resp) = None)"

text \<open>Facts that hold of the component whatever the user and the network do.\<close>

definition coherent :: "world \<Rightarrow> bool" where
  "coherent w =
     (fresh_preview w \<and>
      (preview (ui w) = None \<longleftrightarrow> selectedFile (ui w) = None) \<and>
      (isAnalyzing (ui w) \<longrightarrow> results (ui w) = None \<and> error (ui w) = None) \<and>
      revokedURLs w = [] \<and>
      (\<forall>i \<in> set (pending w). i < length (requests w)))"

text \<open>Facts that hold as long as no file is selected while a request is pending.\<close>

definition single_flight :: "world \<Rightarrow> bool" where
  "single_flight w =
     (length (pending w) \<le> 1 \<and>
      (pending w \<noteq> [] \<longrightarrow> isAnalyzing (ui w)) \<and>
      (results (ui w) = None \<or> error (ui w) = None))"




subsection \<open>Sample inputs\<close>

definition leaf_a :: jsfile where
  "leaf_a = \<lparr>file_name = ''a.png'', file_type = ''image/png''\<rparr>"

definition leaf_b :: jsfile where
  "leaf_b = \<lparr>file_name = ''b.jpg'', file_type = ''image/jpeg''\<rparr>"

definition notes_txt :: jsfile where
  "notes_txt = \<lparr>file_name = ''notes.txt'', file_type = ''text/plain''\<rparr>"

definition body_of :: "string \<Rightarrow> jsval" where
  "body_of p = JObj [(''prediction'', JStr p)]"

section \<open>Stepping\<close>

lemma handleFileChange_accept:
  "prefix ''image/'' (file_type f) \<Longrightarrow> handleFileChange (f # rest) w = processSelectedFile f w"
  by (simp add: handleFileChange_def)

lemma handleDrop_accept:
  "prefix ''image/'' (file_type f) \<Longrightarrow>
   handleDrop (f # rest) w = processSelectedFile f (setDragActive False w)"
  by (simp add: handleDrop_def)

lemma useEffect_processSelectedFile:
  assumes "fresh_preview w" "preview c = preview (ui w)"
  shows "useEffect c (processSelectedFile f w) = analyzeImage (processSelectedFile f w)"
  using assms
  by (auto simp: useEffect_def processSelectedFile_def fresh_preview_def Let_def
           split: option.splits)

lemma fresh_preview_setDragActive:
  "fresh_preview (setDragActive b w) = fresh_preview w"
  by (simp add: fresh_preview_def setDragActive_def split: option.splits)

lemma step_Change_accept:
  assumes "fresh_preview w" "prefix ''image/'' (file_type f)"
  shows "step (Change (f # rest)) w = analyzeImage (processSelectedFile f w)"
  using assms by (simp add: step_def handleFileChange_accept useEffect_processSelectedFile)

lemma step_Drop_accept:
  assumes "fresh_preview w" "prefix ''image/'' (file_type f)"
  shows "step (Drop (f # rest)) w =
         analyzeImage (processSelectedFile f (setDragActive False w))"
proof -
  have "preview (ui w) = preview (ui (setDragActive False w))"
    by (simp add: setDragActive_def)
  then show ?thesis
    using assms
    by (simp add: step_def handleDrop_accept useEffect_processSelectedFile
                  fresh_preview_setDragActive)
qed

lemma step_Change_reject:
  "selects (Change files) = None \<Longrightarrow> step (Change files) w = w"
  by (cases files)
     (simp_all add: step_def handleFileChange_def useEffect_def split: if_splits)

lemma step_Drop_reject:
  "selects (Drop files) = None \<Longrightarrow> step (Drop files) w = setDragActive False w"
  by (cases files)
     (simp_all add: step_def handleDrop_def useEffect_def setDragActive_def split: if_splits)

lemma step_Drag: "step (Drag ty) w = handleDrag ty w"
  by (simp add: step_def handleDrag_def useEffect_def setDragActive_def)

lemma step_Reset: "step Reset w = resetAnalysis w"
  by (simp add: step_def resetAnalysis_def useEffect_def)

lemma analyzeImage_resume_deps:
  "preview (analyzeImage_resume r c) = preview c \<and>
   selectedFile (analyzeImage_resume r c) = selectedFile c \<and>
   dragActive (analyzeImage_resume r c) = dragActive c"
  by (simp add: analyzeImage_resume_def split: option.splits)

lemma step_Settle: "step (Settle i out) w = settle i out w"
  by (simp add: step_def settle_def useEffect_def analyzeImage_resume_deps)

section \<open>Invariants\<close>

lemma coherent_init: "coherent init"
  by (simp add: coherent_def init_def fresh_preview_def)

lemma coherent_select:
  "coherent w \<Longrightarrow> coherent (analyzeImage (processSelectedFile f w))"
  by (auto simp: coherent_def analyzeImage_def processSelectedFile_def fresh_preview_def Let_def
           less_Suc_eq split: option.splits)

lemma coherent_setDragActive: "coherent w \<Longrightarrow> coherent (setDragActive b w)"
  by (simp add: coherent_def setDragActive_def fresh_preview_def split: option.splits)

lemma coherent_handleDrag: "coherent w \<Longrightarrow> coherent (handleDrag ty w)"
  by (simp add: handleDrag_def coherent_setDragActive)

lemma coherent_resetAnalysis: "coherent w \<Longrightarrow> coherent (resetAnalysis w)"
  by (simp add: coherent_def resetAnalysis_def fresh_preview_def split: option.splits)

lemma coherent_settle: "coherent w \<Longrightarrow> coherent (settle i out w)"
  by (auto simp: coherent_def settle_def analyzeImage_resume_def fresh_preview_def
           split: option.splits)

lemma selects_Change:
  "selects (Change files) = Some f \<Longrightarrow>
   \<exists>rest. files = f # rest \<and> prefix ''image/'' (file_type f)"
  by (cases files) (auto split: if_splits)

lemma selects_Drop:
  "selects (Drop files) = Some f \<Longrightarrow>
   \<exists>rest. files = f # rest \<and> prefix ''image/'' (file_type f)"
  by (cases files) (auto split: if_splits)

lemma coherent_step:
  assumes "coherent w"
  shows "coherent (step e w)"
proof (cases e)
  case (Change files)
  show ?thesis
  proof (cases "selects (Change files)")
    case None
    then show ?thesis using assms Change by (simp add: step_Change_reject)
  next
    case (Some f)
    then obtain rest where "files = f # rest" "prefix ''image/'' (file_type f)"
      using selects_Change by blast
    moreover have "fresh_preview w" using assms by (simp add: coherent_def)
    ultimately show ?thesis
      using assms Change by (simp add: step_Change_accept coherent_select)
  qed
next
  case (Drag ty)
  then show ?thesis using assms by (simp add: step_Drag coherent_handleDrag)
next
  case (Drop files)
  show ?thesis
  proof (cases "selects (Drop files)")
    case None
    then show ?thesis using assms Drop by (simp add: step_Drop_reject coherent_setDragActive)
  next
    case (Some f)
    then obtain rest where "files = f # rest" "prefix ''image/'' (file_type f)"
      using selects_Drop by blast
    moreover have "fresh_preview w" using assms by (simp add: coherent_def)
    ultimately show ?thesis
      using assms Drop
      by (simp add: step_Drop_accept coherent_select coherent_setDragActive)
  qed
next
  case Reset
  then show ?thesis using assms by (simp add: step_Reset coherent_resetAnalysis)
next
  case (Settle i out)
  then show ?thesis using assms by (simp add: step_Settle coherent_settle)
qed

lemma reachable_coherent: "reachable w \<Longrightarrow> coherent w"
  by (induction rule: reachable.induct) (simp_all add: coherent_init coherent_step)

lemma exec_reachable: "reachable w \<Longrightarrow> exec w es = Some w' \<Longrightarrow> reachable w'"
proof (induction es arbitrary: w)
  case Nil
  then show ?case by simp
next
  case (Cons e es)
  then show ?case by (auto split: if_splits intro: reachable_step)
qed

section \<open>Some concrete states\<close>

lemma reachable_pending_a: "reachable (step (Change [leaf_a]) init)"
  by (rule reachable_step [OF reachable_init]) (simp add: init_def)

lemma state_pending_a:
  "step (Change [leaf_a]) init =
     \<lparr>ui = \<lparr>selectedFile = Some leaf_a, preview = Some 0, results = None,
             isAnalyzing = True, error = None, dragActive = False\<rparr>,
       createdURLs = [0], revokedURLs = [], requests = [Some leaf_a], pending = [0]\<rparr>"
  by (simp add: step_def handleFileChange_def processSelectedFile_def useEffect_def
                analyzeImage_def init_def leaf_a_def)

lemma state_done_a:
  "step (Settle 0 (HttpResponse 200 (body_of ''Healthy''))) (step (Change [leaf_a]) init) =
     \<lparr>ui = \<lparr>selectedFile = Some leaf_a, preview = Some 0,
             results = Some \<lparr>condition = JStr ''Healthy'', confidence = 98\<rparr>,
             isAnalyzing = False, error = None, dragActive = False\<rparr>,
       createdURLs = [0], revokedURLs = [], requests = [Some leaf_a], pending = []\<rparr>"
  by (simp add: state_pending_a step_Settle settle_def analyzeImage_resume_def
                validateStatus_def body_of_def)

lemma reachable_done_a:
  "reachable (step (Settle 0 (HttpResponse 200 (body_of ''Healthy''))) (step (Change [leaf_a]) init))"
  by (rule reachable_step [OF reachable_pending_a]) (simp add: state_pending_a)

section \<open>Effects of single events\<close>

lemma dragActive_useEffect: "dragActive (ui (useEffect c w)) = dragActive (ui w)"
  by (simp add: useEffect_def analyzeImage_def)

lemma dragActive_handleDrop: "dragActive (ui (handleDrop files w)) = False"
  by (cases files) (simp_all add: handleDrop_def setDragActive_def processSelectedFile_def Let_def)

lemma init_fields:
  "ui init = \<lparr>selectedFile = None, preview = None, results = None,
              isAnalyzing = False, error = None, dragActive = False\<rparr>"
  "createdURLs init = []" "revokedURLs init = []" "requests init = []" "pending init = []"
  by (simp_all add: init_def)

text \<open>The state right after an accepted selection, written out.\<close>

lemma step_accept:
  assumes "reachable w" and "prefix ''image/'' (file_type f)"
    and "e = Change (f # rest) \<or> e = Drop (f # rest)"
  shows "step e w =
     w\<lparr>ui := \<lparr>selectedFile = Some f, preview = Some (length (createdURLs w)),
               results = None, isAnalyzing = True, error = None,
               dragActive = (if e = Change (f # rest) then dragActive (ui w) else False)\<rparr>,
       createdURLs := createdURLs w @ [length (createdURLs w)],
       requests := requests w @ [Some f],
       pending := pending w @ [length (requests w)]\<rparr>"
proof -
  have fresh: "fresh_preview w"
    using assms(1) reachable_coherent by (simp add: coherent_def)
  from assms(3) show ?thesis
  proof
    assume "e = Change (f # rest)"
    then show ?thesis
      using fresh assms(2)
      by (simp add: step_Change_accept analyzeImage_def processSelectedFile_def Let_def)
  next
    assume "e = Drop (f # rest)"
    then show ?thesis
      using fresh assms(2)
      by (simp add: step_Drop_accept analyzeImage_def processSelectedFile_def
                    setDragActive_def Let_def)
  qed
qed

lemma settle_success:
  assumes "prediction_of d = Some p"
  shows "step (Settle i (HttpResponse 200 d)) w =
         w\<lparr>ui := (ui w)\<lparr>results := Some \<lparr>condition = p, confidence = 98\<rparr>,
                         isAnalyzing := False\<rparr>,
           pending := removeAll i (pending w)\<rparr>"
  using assms
  by (simp add: step_Settle settle_def analyzeImage_resume_def validateStatus_def)

lemma settle_failure:
  assumes "attempt_fails out"
  shows "step (Settle i out) w =
         w\<lparr>ui := (ui w)\<lparr>error := Some failure_message, isAnalyzing := False\<rparr>,
           pending := removeAll i (pending w)\<rparr>"
  using assms
  by (auto simp: step_Settle settle_def analyzeImage_resume_def attempt_fails_def
           split: option.splits)

lemma ui_settle: "ui (step (Settle i out) w) = analyzeImage_resume (axios out) (ui w)"
  by (simp add: step_Settle settle_def)

lemma pending_settle: "pending (step (Settle i out) w) = removeAll i (pending w)"
  by (simp add: step_Settle settle_def)

lemma requests_settle: "requests (step (Settle i out) w) = requests w"
  by (simp add: step_Settle settle_def)

section \<open>More concrete states\<close>

lemma state_pending_ab:
  "step (Drop [leaf_b]) (step (Change [leaf_a]) init) =
     \<lparr>ui = \<lparr>selectedFile = Some leaf_b, preview = Some 1, results = None,
             isAnalyzing = True, error = None, dragActive = False\<rparr>,
       createdURLs = [0, 1], revokedURLs = [], requests = [Some leaf_a, Some leaf_b],
       pending = [0, 1]\<rparr>"
  unfolding state_pending_a
  by (simp add: step_def handleDrop_def setDragActive_def
                processSelectedFile_def useEffect_def analyzeImage_def leaf_b_def)

lemma pending_pending_a: "pending (step (Change [leaf_a]) init) = [0]"
  by (simp add: state_pending_a)

section \<open>One request at a time\<close>

lemma reachable_seq_reachable: "reachable_seq w \<Longrightarrow> reachable w"
  by (induction rule: reachable_seq.induct) (auto intro: reachable_init reachable_step)

lemma single_flight_init: "single_flight init"
  by (simp add: single_flight_def init_fields)

lemma single_flight_select:
  "pending w = [] \<Longrightarrow> single_flight (analyzeImage (processSelectedFile f w))"
  by (simp add: single_flight_def analyzeImage_def processSelectedFile_def Let_def)

lemma single_flight_setDragActive: "single_flight w \<Longrightarrow> single_flight (setDragActive b w)"
  by (simp add: single_flight_def setDragActive_def)

lemma single_flight_handleDrag: "single_flight w \<Longrightarrow> single_flight (handleDrag ty w)"
  by (simp add: handleDrag_def single_flight_setDragActive)

lemma single_flight_resetAnalysis: "single_flight w \<Longrightarrow> single_flight (resetAnalysis w)"
  by (simp add: single_flight_def resetAnalysis_def)

lemma single_flight_settle:
  assumes "single_flight w" "coherent w" "i \<in> set (pending w)"
  shows "single_flight (settle i out w)"
proof -
  have "pending w = [i]"
    using assms(1,3) by (cases "pending w") (auto simp: single_flight_def)
  moreover from this have "results (ui w) = None \<and> error (ui w) = None"
    using assms(1,2) by (simp add: single_flight_def coherent_def)
  ultimately show ?thesis
    by (simp add: single_flight_def settle_def analyzeImage_resume_def split: option.splits)
qed

lemma single_flight_step:
  assumes "single_flight w" "coherent w" "enabled_seq e w"
  shows "single_flight (step e w)"
proof (cases e)
  case (Change files)
  show ?thesis
  proof (cases "selects (Change files)")
    case None
    then show ?thesis using assms(1) Change by (simp add: step_Change_reject)
  next
    case (Some f)
    then obtain rest where "files = f # rest" "prefix ''image/'' (file_type f)"
      using selects_Change by blast
    moreover have "fresh_preview w" using assms(2) by (simp add: coherent_def)
    moreover have "pending w = []" using assms(3) Change Some by simp
    ultimately show ?thesis
      using Change by (simp add: step_Change_accept single_flight_select)
  qed
next
  case (Drag ty)
  then show ?thesis using assms(1) by (simp add: step_Drag single_flight_handleDrag)
next
  case (Drop files)
  show ?thesis
  proof (cases "selects (Drop files)")
    case None
    then show ?thesis
      using assms(1) Drop by (simp add: step_Drop_reject single_flight_setDragActive)
  next
    case (Some f)
    then obtain rest where "files = f # rest" "prefix ''image/'' (file_type f)"
      using selects_Drop by blast
    moreover have "fresh_preview w" using assms(2) by (simp add: coherent_def)
    moreover have "pending (setDragActive False w) = []"
      using assms(3) Drop Some by (simp add: setDragActive_def)
    ultimately show ?thesis
      using Drop by (simp add: step_Drop_accept single_flight_select)
  qed
next
  case Reset
  then show ?thesis using assms(1) by (simp add: step_Reset single_flight_resetAnalysis)
next
  case (Settle i out)
  then show ?thesis using assms by (simp add: step_Settle single_flight_settle)
qed

lemma reachable_seq_single_flight: "reachable_seq w \<Longrightarrow> single_flight w"
proof (induction rule: reachable_seq.induct)
  case reachable_seq_init
  show ?case by (rule single_flight_init)
next
  case (reachable_seq_step w e)
  then show ?case
    using reachable_coherent reachable_seq_reachable single_flight_step by blast
qed

lemma reachable_seq_done_a:
  "reachable_seq (step (Settle 0 (HttpResponse 200 (body_of ''Healthy'')))
                   (step (Change [leaf_a]) init))"
proof -
  have "reachable_seq (step (Change [leaf_a]) init)"
    by (rule reachable_seq_step [OF reachable_seq_init]) (simp add: init_fields)
  then show ?thesis
    by (rule reachable_seq_step) (simp add: state_pending_a)
qed

section \<open>Requests and their previews\<close>

















lemma reachable_seq_pending_a: "reachable_seq (step (Change [leaf_a]) init)"
  by (rule reachable_seq_step [OF reachable_seq_init]) (simp add: init_fields)

section \<open>The drag indicator\<close>

text \<open>
  C9. The drag-active indicator is on after every \<open>dragenter\<close> and every \<open>dragover\<close>, and
  off after every \<open>dragleave\<close> and after every drop, whatever was dropped and whether or
  not the component accepts it.
\<close>

theorem drag_indicator:
  "dragActive (ui (step (Drag ''dragenter'') w)) \<and>
   dragActive (ui (step (Drag ''dragover'') w)) \<and>
   \<not> dragActive (ui (step (Drag ''dragleave'') w)) \<and>
   \<not> dragActive (ui (step (Drop files) w))"
proof -
  have "\<not> dragActive (ui (step (Drop files) w))"
    by (simp add: step_def dragActive_useEffect dragActive_handleDrop)
  then show ?thesis
    by (simp add: step_Drag handleDrag_def setDragActive_def)
qed

theorem drag_indicator_witness:
  "dragActive (ui (step (Drag ''dragenter'') init)) \<and>
   dragActive (ui (step (Drag ''dragover'') init)) \<and>
   \<not> dragActive (ui (step (Drag ''dragleave'') (step (Drag ''dragover'') init))) \<and>
   \<not> dragActive (ui (step (Drop [notes_txt]) (step (Drag ''dragover'') init))) \<and>
   \<not> dragActive (ui (step (Drop [leaf_a]) (step (Drag ''dragover'') init)))"
  using drag_indicator [of init "[]"]
        drag_indicator [of "step (Drag ''dragover'') init" "[notes_txt]"]
        drag_indicator [of "step (Drag ''dragover'') init" "[leaf_a]"]
  by simp

section \<open>Selections the component ignores\<close>

text \<open>
  C7, as the code has it. A selection with no file, or whose first file has a MIME type
  that does not start with \<open>image/\<close>, causes no transition: through the picker the state
  after the event is the state before it, and through a drop it is the state before it
  with the drag indicator switched off. The file, the preview, the result, the error and
  the in-flight flag are as they were, no object URL is created and no request is sent.
\<close>

theorem rejected_selection_ignored:
  assumes "files = [] \<or> \<not> prefix ''image/'' (file_type (hd files))"
  shows "step (Change files) w = w \<and>
         step (Drop files) w = w\<lparr>ui := (ui w)\<lparr>dragActive := False\<rparr>\<rparr>"
proof -
  have "selects (Change files) = None" "selects (Drop files) = None"
    using assms by (cases files; simp)+
  then show ?thesis
    by (simp add: step_Change_reject step_Drop_reject setDragActive_def)
qed

theorem rejected_selection_ignored_witness:
  "step (Change [notes_txt]) init = init \<and>
   step (Change []) init = init \<and>
   step (Drop [notes_txt]) (step (Drag ''dragover'') init) = init \<and>
   step (Drop []) (step (Drag ''dragover'') init) = init"
proof -
  have h: "[notes_txt] = [] \<or> \<not> prefix ''image/'' (file_type (hd [notes_txt]))"
    by (simp add: notes_txt_def)
  have i: "(step (Drag ''dragover'') init)
             \<lparr>ui := (ui (step (Drag ''dragover'') init))\<lparr>dragActive := False\<rparr>\<rparr> = init"
    by (simp add: step_Drag handleDrag_def setDragActive_def init_def)
  show ?thesis
    using rejected_selection_ignored [OF h, of init]
          rejected_selection_ignored [of "[]" init]
          rejected_selection_ignored [OF h, of "step (Drag ''dragover'') init"]
          rejected_selection_ignored [of "[]" "step (Drag ''dragover'') init"] i
    by simp
qed

text \<open>
  C7 as stated leaves the component state completely unchanged. A text file dropped while
  the drag indicator is on switches the indicator off, so the state after the drop is not
  the state before it.
\<close>

theorem rejected_drop_counterexample:
  "dragActive (ui (step (Drag ''dragover'') init)) \<and>
   \<not> dragActive (ui (step (Drop [notes_txt]) (step (Drag ''dragover'') init))) \<and>
   step (Drop [notes_txt]) (step (Drag ''dragover'') init) \<noteq> step (Drag ''dragover'') init"
proof -
  have a: "dragActive (ui (step (Drag ''dragover'') init))"
    by (simp add: step_Drag handleDrag_def setDragActive_def)
  have b: "\<not> dragActive (ui (step (Drop [notes_txt]) (step (Drag ''dragover'') init)))"
    by (simp add: step_def dragActive_useEffect dragActive_handleDrop)
  from a b show ?thesis by metis
qed

section \<open>Selections the component accepts\<close>

text \<open>
  C8. In any reachable state, selecting a file whose type starts with \<open>image/\<close>, through
  the picker or by a drop, first clears the previous result and error (they are gone after
  the handler, before the effect runs), records the file and a newly created preview, and
  leaves the component analysing that file: the in-flight flag is set, and the request
  sent last is the one for the new file.
\<close>

theorem selection_starts_analysis:
  assumes "reachable w" and "prefix ''image/'' (file_type f)"
    and "e = Change (f # rest) \<or> e = Drop (f # rest)"
  shows "results (ui (handler e w)) = None \<and> error (ui (handler e w)) = None \<and>
         selectedFile (ui (step e w)) = Some f \<and>
         preview (ui (step e w)) = Some (length (createdURLs w)) \<and>
         createdURLs (step e w) = createdURLs w @ [length (createdURLs w)] \<and>
         results (ui (step e w)) = None \<and>
         error (ui (step e w)) = None \<and>
         isAnalyzing (ui (step e w)) \<and>
         last (requests (step e w)) = Some f"
proof -
  have fresh: "fresh_preview w"
    using assms(1) reachable_coherent by (simp add: coherent_def)
  from assms(3) show ?thesis
  proof
    assume "e = Change (f # rest)"
    then show ?thesis
      using fresh assms(2)
      by (simp add: step_Change_accept handleFileChange_accept analyzeImage_def
                    processSelectedFile_def Let_def)
  next
    assume "e = Drop (f # rest)"
    then show ?thesis
      using fresh assms(2)
      by (simp add: step_Drop_accept handleDrop_accept analyzeImage_def
                    processSelectedFile_def setDragActive_def Let_def)
  qed
qed

theorem selection_starts_analysis_witness:
  "selectedFile (ui (step (Drop [leaf_b])
      (step (Settle 0 (HttpResponse 200 (body_of ''Healthy''))) (step (Change [leaf_a]) init))))
     = Some leaf_b \<and>
   preview (ui (step (Drop [leaf_b])
      (step (Settle 0 (HttpResponse 200 (body_of ''Healthy''))) (step (Change [leaf_a]) init))))
     = Some 1 \<and>
   results (ui (step (Drop [leaf_b])
      (step (Settle 0 (HttpResponse 200 (body_of ''Healthy''))) (step (Change [leaf_a]) init))))
     = None \<and>
   isAnalyzing (ui (step (Drop [leaf_b])
      (step (Settle 0 (HttpResponse 200 (body_of ''Healthy''))) (step (Change [leaf_a]) init))))"
proof -
  have t: "prefix ''image/'' (file_type leaf_b)"
    by (simp add: leaf_b_def)
  show ?thesis
    using selection_starts_analysis [OF reachable_done_a t, of "Drop [leaf_b]" "[]"]
    by (simp add: state_done_a)
qed

text \<open>
  C5. In any reachable state, also one with requests still pending, an accepted selection
  sends exactly one request, for the selected file; every other event sends none.
\<close>

theorem one_request_per_selection:
  assumes "reachable w"
  shows "(prefix ''image/'' (file_type f) \<and> (e = Change (f # rest) \<or> e = Drop (f # rest)) \<longrightarrow>
            requests (step e w) = requests w @ [Some f] \<and>
            pending (step e w) = pending w @ [length (requests w)]) \<and>
         (selects e = None \<longrightarrow> requests (step e w) = requests w)"
proof -
  have fresh: "fresh_preview w"
    using assms reachable_coherent by (simp add: coherent_def)
  have a: "requests (step e w) = requests w @ [Some f] \<and>
           pending (step e w) = pending w @ [length (requests w)]"
    if "prefix ''image/'' (file_type f)" "e = Change (f # rest) \<or> e = Drop (f # rest)"
    using that fresh
    by (auto simp: step_Change_accept step_Drop_accept analyzeImage_def
                   processSelectedFile_def setDragActive_def Let_def)
  have b: "requests (step e w) = requests w" if "selects e = None"
  proof (cases e)
    case (Change files)
    then show ?thesis using that by (simp add: step_Change_reject)
  next
    case (Drag ty)
    then show ?thesis by (simp add: step_Drag handleDrag_def setDragActive_def)
  next
    case (Drop files)
    then show ?thesis using that by (simp add: step_Drop_reject setDragActive_def)
  next
    case Reset
    then show ?thesis by (simp add: step_Reset resetAnalysis_def)
  next
    case (Settle i out)
    then show ?thesis by (simp add: step_Settle settle_def)
  qed
  from a b show ?thesis by blast
qed

theorem one_request_per_selection_witness:
  "requests (step (Drop [leaf_b]) (step (Change [leaf_a]) init)) = [Some leaf_a, Some leaf_b] \<and>
   pending (step (Drop [leaf_b]) (step (Change [leaf_a]) init)) = [0, 1] \<and>
   requests (step (Drop [notes_txt]) (step (Change [leaf_a]) init)) = [Some leaf_a]"
proof -
  have t: "prefix ''image/'' (file_type leaf_b)"
    by (simp add: leaf_b_def)
  have n: "selects (Drop [notes_txt]) = None"
    by (simp add: notes_txt_def)
  show ?thesis
    using one_request_per_selection [OF reachable_pending_a, of leaf_b "Drop [leaf_b]" "[]"]
          one_request_per_selection [OF reachable_pending_a, of leaf_b "Drop [notes_txt]" "[]"]
          t n
    by (simp add: state_pending_a)
qed

section \<open>Settled requests\<close>

text \<open>
  C6, as the code has it. A request answered with status 200 and an object body whose
  \<open>prediction\<close> member is \<open>p\<close> leaves the result \<open>{condition: p, confidence: 98}\<close>,
  clears the in-flight flag and leaves the error as it was. There is no error beside the
  result when the component was still analysing as the answer came, which is always so
  for a pending request when no file is selected while a request is pending. For a \<open>p\<close>
  that the page can show, any string among them, the class chosen by
  \<open>getConditionClass\<close> is \<open>healthy\<close> exactly when \<open>p\<close> is the string \<open>Healthy\<close>, with
  the maintenance tips below; for every other such \<open>p\<close> it is \<open>disease\<close>, with the
  general recommended actions.
\<close>

theorem prediction_becomes_result:
  assumes "map_of (rev kvs) ''prediction'' = Some p"
    and "w' = step (Settle i (HttpResponse 200 (JObj kvs))) w"
  shows "results (ui w') = Some \<lparr>condition = p, confidence = 98\<rparr> \<and>
         \<not> isAnalyzing (ui w') \<and>
         error (ui w') = error (ui w) \<and>
         (reachable w \<and> isAnalyzing (ui w) \<longrightarrow> error (ui w') = None) \<and>
         (reachable_seq w \<and> i \<in> set (pending w) \<longrightarrow> error (ui w') = None) \<and>
         (renderable p \<longrightarrow>
            (getConditionClass (ui w') = ''healthy'' \<longleftrightarrow> p = JStr ''Healthy'') \<and>
            (p = JStr ''Healthy'' \<longrightarrow>
               Option.bind (results (ui w')) result_details = Some MaintenanceTips) \<and>
            (p \<noteq> JStr ''Healthy'' \<longrightarrow>
               getConditionClass (ui w') = ''disease'' \<and>
               Option.bind (results (ui w')) result_details = Some RecommendedAction))"
proof -
  have d: "prediction_of (JObj kvs) = Some p"
    using assms(1) by simp
  have u: "ui w' = (ui w)\<lparr>results := Some \<lparr>condition = p, confidence = 98\<rparr>,
                         isAnalyzing := False\<rparr>"
    unfolding assms(2) settle_success [OF d] by simp
  have e: "error (ui w') = None" if "reachable w" "isAnalyzing (ui w)"
    using reachable_coherent [OF that(1)] that(2) by (simp add: u coherent_def)
  have s: "error (ui w') = None" if "reachable_seq w" "i \<in> set (pending w)"
  proof -
    have "single_flight w"
      using that(1) by (rule reachable_seq_single_flight)
    then have "isAnalyzing (ui w)"
      using that(2) by (auto simp: single_flight_def)
    then show ?thesis
      using e reachable_seq_reachable [OF that(1)] by blast
  qed
  have r: "results (ui w') = Some \<lparr>condition = p, confidence = 98\<rparr>"
          "\<not> isAnalyzing (ui w')" "error (ui w') = error (ui w)"
    by (simp_all add: u)
  have v: "(getConditionClass (ui w') = ''healthy'' \<longleftrightarrow> p = JStr ''Healthy'') \<and>
           (p = JStr ''Healthy'' \<longrightarrow>
              Option.bind (results (ui w')) result_details = Some MaintenanceTips) \<and>
           (p \<noteq> JStr ''Healthy'' \<longrightarrow>
              getConditionClass (ui w') = ''disease'' \<and>
              Option.bind (results (ui w')) result_details = Some RecommendedAction)"
    if "renderable p"
    using that by (simp add: r getConditionClass_def result_details_def)
  from e s r v show ?thesis by blast
qed

theorem prediction_becomes_result_witness:
  "results (ui (step (Settle 0 (HttpResponse 200 (JObj [(''prediction'', JStr ''Late Blight'')])))
                     (step (Change [leaf_a]) init)))
     = Some \<lparr>condition = JStr ''Late Blight'', confidence = 98\<rparr> \<and>
   error (ui (step (Settle 0 (HttpResponse 200 (JObj [(''prediction'', JStr ''Late Blight'')])))
                     (step (Change [leaf_a]) init))) = None \<and>
   getConditionClass
     (ui (step (Settle 0 (HttpResponse 200 (JObj [(''prediction'', JStr ''Late Blight'')])))
                     (step (Change [leaf_a]) init))) = ''disease'' \<and>
   Option.bind
     (results (ui (step (Settle 0 (HttpResponse 200 (JObj [(''prediction'', JStr ''Late Blight'')])))
                     (step (Change [leaf_a]) init)))) result_details = Some RecommendedAction \<and>
   getConditionClass
     (ui (step (Settle 0 (HttpResponse 200 (JObj [(''prediction'', JStr ''Healthy'')])))
                     (step (Change [leaf_a]) init))) = ''healthy'' \<and>
   Option.bind
     (results (ui (step (Settle 0 (HttpResponse 200 (JObj [(''prediction'', JStr ''Healthy'')])))
                     (step (Change [leaf_a]) init)))) result_details = Some MaintenanceTips"
proof -
  have m: "map_of (rev [(''prediction'', JStr ''Late Blight'')]) ''prediction''
             = Some (JStr ''Late Blight'')"
    by simp
  have h: "map_of (rev [(''prediction'', JStr ''Healthy'')]) ''prediction''
             = Some (JStr ''Healthy'')"
    by simp
  have a: "isAnalyzing (ui (step (Change [leaf_a]) init))"
    by (simp add: state_pending_a)
  have q: "0 \<in> set (pending (step (Change [leaf_a]) init))"
    by (simp add: pending_pending_a)
  have rl: "renderable (JStr ''Late Blight'')" and rh: "renderable (JStr ''Healthy'')"
    by simp_all
  have n: "JStr ''Late Blight'' \<noteq> JStr ''Healthy''"
    by simp
  note l = prediction_becomes_result [OF m refl, of 0 "step (Change [leaf_a]) init"]
  note g = prediction_becomes_result [OF h refl, of 0 "step (Change [leaf_a]) init"]
  from l reachable_pending_a a reachable_seq_pending_a q rl n
  have 1: "results (ui (step (Settle 0 (HttpResponse 200 (JObj [(''prediction'', JStr ''Late Blight'')])))
                     (step (Change [leaf_a]) init)))
             = Some \<lparr>condition = JStr ''Late Blight'', confidence = 98\<rparr> \<and>
           error (ui (step (Settle 0 (HttpResponse 200 (JObj [(''prediction'', JStr ''Late Blight'')])))
                     (step (Change [leaf_a]) init))) = None \<and>
           getConditionClass
             (ui (step (Settle 0 (HttpResponse 200 (JObj [(''prediction'', JStr ''Late Blight'')])))
                     (step (Change [leaf_a]) init))) = ''disease'' \<and>
           Option.bind
             (results (ui (step (Settle 0 (HttpResponse 200 (JObj [(''prediction'', JStr ''Late Blight'')])))
                     (step (Change [leaf_a]) init)))) result_details = Some RecommendedAction"
    by blast
  from g rh
  have 2: "getConditionClass
             (ui (step (Settle 0 (HttpResponse 200 (JObj [(''prediction'', JStr ''Healthy'')])))
                     (step (Change [leaf_a]) init))) = ''healthy'' \<and>
           Option.bind
             (results (ui (step (Settle 0 (HttpResponse 200 (JObj [(''prediction'', JStr ''Healthy'')])))
                     (step (Change [leaf_a]) init)))) result_details = Some MaintenanceTips"
    by blast
  from 1 2 show ?thesis by blast
qed

text \<open>
  C6 as stated ends in the succeeded state for every such answer and every \<open>p\<close>. Below,
  B is dropped while A's request is pending, A's request fails and B's is answered
  \<open>Healthy\<close>: the run ends with B's result and the failure message side by side. And for
  the answer \<open>{prediction: {}}\<close> the condition is an object, on which the result block
  cannot be rendered.
\<close>

theorem result_beside_error_counterexample:
  "exec init [Change [leaf_a], Drop [leaf_b], Settle 0 NetworkError,
              Settle 1 (HttpResponse 200 (JObj [(''prediction'', JStr ''Healthy'')]))] =
     Some \<lparr>ui = \<lparr>selectedFile = Some leaf_b, preview = Some 1,
                  results = Some \<lparr>condition = JStr ''Healthy'', confidence = 98\<rparr>,
                  isAnalyzing = False, error = Some failure_message, dragActive = False\<rparr>,
            createdURLs = [0, 1], revokedURLs = [],
            requests = [Some leaf_a, Some leaf_b], pending = []\<rparr> \<and>
   prediction_of (JObj [(''prediction'', JObj [])]) = Some (JObj []) \<and>
   result_details \<lparr>condition = JObj [], confidence = 98\<rparr> = None"
  by (simp add: init_fields state_pending_ab step_Settle settle_def
                analyzeImage_resume_def validateStatus_def result_details_def)




text \<open>
  C1, as the code has it. When a request is rejected (no response arrives, or the status
  is outside 200 to 299, 500 say) or is answered with status 200 and the body \<open>null\<close>,
  the component holds exactly the fixed failure message and is no longer analysing; the
  failure writes no result, and when the component was analysing there is none.
\<close>

theorem rejected_request_fails:
  assumes "out = NetworkError \<or> (\<exists>s b. out = HttpResponse s b \<and> (s < 200 \<or> 300 \<le> s)) \<or>
           out = HttpResponse 200 JNull"
    and "w' = step (Settle i out) w"
  shows "error (ui w') = Some failure_message \<and> \<not> isAnalyzing (ui w') \<and>
         results (ui w') = results (ui w) \<and>
         (reachable w \<and> isAnalyzing (ui w) \<longrightarrow> results (ui w') = None)"
proof -
  have fails: "attempt_fails out"
    using assms(1) by (auto simp: attempt_fails_def validateStatus_def)
  have u: "ui w' = (ui w)\<lparr>error := Some failure_message, isAnalyzing := False\<rparr>"
    unfolding assms(2) settle_failure [OF fails] by simp
  have "results (ui w') = None" if "reachable w" "isAnalyzing (ui w)"
    using reachable_coherent [OF that(1)] that(2) by (simp add: u coherent_def)
  then show ?thesis
    by (simp add: u)
qed

theorem rejected_request_fails_witness:
  "error (ui (step (Settle 0 (HttpResponse 500 (JStr ''Internal Server Error'')))
                (step (Change [leaf_a]) init))) = Some failure_message \<and>
   results (ui (step (Settle 0 (HttpResponse 500 (JStr ''Internal Server Error'')))
                (step (Change [leaf_a]) init))) = None \<and>
   error (ui (step (Settle 0 NetworkError) (step (Change [leaf_a]) init)))
     = Some failure_message \<and>
   results (ui (step (Settle 0 NetworkError) (step (Change [leaf_a]) init))) = None"
proof -
  have o: "HttpResponse 500 (JStr ''Internal Server Error'') = NetworkError \<or>
           (\<exists>s b. HttpResponse 500 (JStr ''Internal Server Error'') = HttpResponse s b \<and>
                  (s < 200 \<or> 300 \<le> s)) \<or>
           HttpResponse 500 (JStr ''Internal Server Error'') = HttpResponse 200 JNull"
    by simp
  have n: "NetworkError = NetworkError \<or>
           (\<exists>s b. NetworkError = HttpResponse s b \<and> (s < 200 \<or> 300 \<le> s)) \<or>
           NetworkError = HttpResponse 200 JNull"
    by simp
  have a: "isAnalyzing (ui (step (Change [leaf_a]) init))"
    by (simp add: state_pending_a)
  show ?thesis
    using rejected_request_fails [OF o refl, of 0 "step (Change [leaf_a]) init"]
          rejected_request_fails [OF n refl, of 0 "step (Change [leaf_a]) init"]
          reachable_pending_a a
    by (simp add: state_pending_a)
qed

text \<open>
  C1 as stated also promises a failure for a 200 response whose body lacks
  \<open>prediction\<close>. The body \<open>{}\<close> is such a body: the run below ends with a result whose
  condition is \<open>undefined\<close> and with no error.
\<close>

theorem malformed_body_counterexample:
  "exec init [Change [leaf_a], Settle 0 (HttpResponse 200 (JObj []))] =
     Some \<lparr>ui = \<lparr>selectedFile = Some leaf_a, preview = Some 0,
                  results = Some \<lparr>condition = JUndefined, confidence = 98\<rparr>,
                  isAnalyzing = False, error = None, dragActive = False\<rparr>,
            createdURLs = [0], revokedURLs = [], requests = [Some leaf_a], pending = []\<rparr>"
  by (simp add: init_fields state_pending_a step_Settle settle_def analyzeImage_resume_def
                validateStatus_def)

section \<open>Overlapping requests\<close>

text \<open>
  C2, as the code has it. File A is selected, file B is dropped while A's request is
  pending, B's request settles and then A's. Both settlements can happen in that order;
  the file and the preview at the end are B's, yet A's late outcome is written into the
  shared slots: when A's request succeeded the result at the end is A's, and when it
  failed the error at the end is the failure message.
\<close>

theorem stale_response_overwrites:
  assumes "reachable w" and "enabled ea w"
    and "prefix ''image/'' (file_type fa)" and "ea = Change (fa # ra) \<or> ea = Drop (fa # ra)"
    and "prefix ''image/'' (file_type fb)"
    and "a = length (requests w)" and "b = Suc a"
    and "w2 = step (Drop (fb # rb)) (step ea w)"
    and "w3 = step (Settle b outB) w2"
    and "w4 = step (Settle a outA) w3"
  shows "enabled (Settle b outB) w2 \<and> enabled (Settle a outA) w3 \<and>
         requests w4 = requests w @ [Some fa, Some fb] \<and>
         selectedFile (ui w4) = Some fb \<and>
         preview (ui w4) = Some (Suc (length (createdURLs w))) \<and>
         (outA = HttpResponse 200 d \<and> prediction_of d = Some p \<longrightarrow>
            results (ui w4) = Some \<lparr>condition = p, confidence = 98\<rparr>) \<and>
         (attempt_fails outA \<longrightarrow> error (ui w4) = Some failure_message)"
proof -
  have r1: "reachable (step ea w)"
    using assms(1,2) by (rule reachable_step)
  have eb: "Drop (fb # rb) = Change (fb # rb) \<or> Drop (fb # rb) = Drop (fb # rb)"
    by simp
  have w1: "step ea w =
     w\<lparr>ui := \<lparr>selectedFile = Some fa, preview = Some (length (createdURLs w)),
               results = None, isAnalyzing = True, error = None,
               dragActive = (if ea = Change (fa # ra) then dragActive (ui w) else False)\<rparr>,
       createdURLs := createdURLs w @ [length (createdURLs w)],
       requests := requests w @ [Some fa],
       pending := pending w @ [length (requests w)]\<rparr>"
    by (rule step_accept [OF assms(1,3,4)])
  have w2: "w2 =
     w\<lparr>ui := \<lparr>selectedFile = Some fb, preview = Some (Suc (length (createdURLs w))),
               results = None, isAnalyzing = True, error = None, dragActive = False\<rparr>,
       createdURLs := createdURLs w @ [length (createdURLs w), Suc (length (createdURLs w))],
       requests := requests w @ [Some fa, Some fb],
       pending := pending w @ [a, b]\<rparr>"
    unfolding assms(8) step_accept [OF r1 assms(5) eb] unfolding w1
    by (simp add: assms(6,7))
  have en_b: "enabled (Settle b outB) w2"
    by (simp add: w2)
  have "a \<in> set (pending w3)"
    unfolding assms(9) pending_settle by (simp add: w2 assms(7))
  then have en_a: "enabled (Settle a outA) w3"
    by simp
  have req: "requests w4 = requests w @ [Some fa, Some fb]"
    unfolding assms(10) assms(9) requests_settle by (simp add: w2)
  have sel: "selectedFile (ui w4) = Some fb \<and>
             preview (ui w4) = Some (Suc (length (createdURLs w)))"
    unfolding assms(10) assms(9) ui_settle by (simp add: analyzeImage_resume_deps w2)
  have ok: "results (ui w4) = Some \<lparr>condition = p, confidence = 98\<rparr>"
    if "outA = HttpResponse 200 d" "prediction_of d = Some p"
    unfolding assms(10) ui_settle using that
    by (simp add: analyzeImage_resume_def validateStatus_def)
  have bad: "error (ui w4) = Some failure_message" if "attempt_fails outA"
    unfolding assms(10) settle_failure [OF that] by simp
  from en_b en_a req sel ok bad show ?thesis by blast
qed

theorem stale_response_overwrites_witness:
  "results (ui (step (Settle 0 (HttpResponse 200 (body_of ''Late Blight'')))
                (step (Settle 1 (HttpResponse 200 (body_of ''Healthy'')))
                  (step (Drop [leaf_b]) (step (Change [leaf_a]) init)))))
     = Some \<lparr>condition = JStr ''Late Blight'', confidence = 98\<rparr> \<and>
   selectedFile (ui (step (Settle 0 (HttpResponse 200 (body_of ''Late Blight'')))
                (step (Settle 1 (HttpResponse 200 (body_of ''Healthy'')))
                  (step (Drop [leaf_b]) (step (Change [leaf_a]) init)))))
     = Some leaf_b \<and>
   error (ui (step (Settle 0 NetworkError)
                (step (Settle 1 (HttpResponse 200 (body_of ''Healthy'')))
                  (step (Drop [leaf_b]) (step (Change [leaf_a]) init)))))
     = Some failure_message"
proof -
  have en: "enabled (Change [leaf_a]) init"
    by (simp add: init_fields)
  have ta: "prefix ''image/'' (file_type leaf_a)"
    by (simp add: leaf_a_def)
  have tb: "prefix ''image/'' (file_type leaf_b)"
    by (simp add: leaf_b_def)
  have e: "Change [leaf_a] = Change (leaf_a # []) \<or> Change [leaf_a] = Drop (leaf_a # [])"
    by simp
  have p: "prediction_of (body_of ''Late Blight'') = Some (JStr ''Late Blight'')"
    by (simp add: body_of_def)
  have n: "attempt_fails NetworkError"
    by (simp add: attempt_fails_def)
  show ?thesis
    using stale_response_overwrites [OF reachable_init en ta e tb refl refl refl refl refl,
            where rb = "[]" and outB = "HttpResponse 200 (body_of ''Healthy'')"
              and outA = "HttpResponse 200 (body_of ''Late Blight'')"
              and d = "body_of ''Late Blight''" and p = "JStr ''Late Blight''"]
          stale_response_overwrites [OF reachable_init en ta e tb refl refl refl refl refl,
            where rb = "[]" and outB = "HttpResponse 200 (body_of ''Healthy'')"
              and outA = NetworkError]
          p n
    by (simp add: init_fields)
qed

text \<open>
  C2 as stated has the final state reflect B's outcome. Below, B is answered
  \<open>Healthy\<close> first and A \<open>Late Blight\<close> afterwards: the run ends showing B's file with
  A's \<open>Late Blight\<close>.
\<close>

theorem stale_response_counterexample:
  "exec init [Change [leaf_a], Drop [leaf_b],
              Settle 1 (HttpResponse 200 (body_of ''Healthy'')),
              Settle 0 (HttpResponse 200 (body_of ''Late Blight''))] =
     Some \<lparr>ui = \<lparr>selectedFile = Some leaf_b, preview = Some 1,
                  results = Some \<lparr>condition = JStr ''Late Blight'', confidence = 98\<rparr>,
                  isAnalyzing = False, error = None, dragActive = False\<rparr>,
            createdURLs = [0, 1], revokedURLs = [],
            requests = [Some leaf_a, Some leaf_b], pending = []\<rparr>"
  by (simp add: init_fields state_pending_ab step_Settle settle_def
                analyzeImage_resume_def validateStatus_def body_of_def)

section \<open>What is shown together\<close>

text \<open>
  C3, as the code has it. In every reachable state the in-flight flag excludes a result
  and an error, and the upload prompt of the idle page is shown only when no file is
  selected. In every state reached without selecting a file while a request is pending,
  at most one of in-flight flag, result and error is present.
\<close>

theorem exclusive_blocks:
  "(reachable w \<longrightarrow>
      (isAnalyzing (ui w) \<longrightarrow> results (ui w) = None \<and> error (ui w) = None) \<and>
      (shows_upload_prompt (ui w) \<longrightarrow> selectedFile (ui w) = None)) \<and>
   (reachable_seq w \<longrightarrow> active_blocks (ui w) \<le> 1)"
proof -
  have a: "(isAnalyzing (ui w) \<longrightarrow> results (ui w) = None \<and> error (ui w) = None) \<and>
           (shows_upload_prompt (ui w) \<longrightarrow> selectedFile (ui w) = None)"
    if "reachable w"
    using reachable_coherent [OF that] by (simp add: coherent_def shows_upload_prompt_def)
  have b: "active_blocks (ui w) \<le> 1" if "reachable_seq w"
  proof -
    have "coherent w" "single_flight w"
      using that reachable_coherent reachable_seq_reachable reachable_seq_single_flight
      by blast+
    then show ?thesis
      by (auto simp: active_blocks_def coherent_def single_flight_def)
  qed
  from a b show ?thesis by blast
qed

theorem exclusive_blocks_witness:
  "active_blocks (ui (step (Settle 0 (HttpResponse 200 (body_of ''Healthy'')))
                       (step (Change [leaf_a]) init))) \<le> 1 \<and>
   results (ui (step (Change [leaf_a]) init)) = None \<and>
   error (ui (step (Change [leaf_a]) init)) = None \<and>
   selectedFile (ui init) = None"
proof -
  have a: "active_blocks (ui (step (Settle 0 (HttpResponse 200 (body_of ''Healthy'')))
                               (step (Change [leaf_a]) init))) \<le> 1"
    using exclusive_blocks [of "step (Settle 0 (HttpResponse 200 (body_of ''Healthy'')))
                                  (step (Change [leaf_a]) init)"]
          reachable_seq_done_a
    by blast
  have "isAnalyzing (ui (step (Change [leaf_a]) init))"
    by (simp add: state_pending_a)
  then have b: "results (ui (step (Change [leaf_a]) init)) = None \<and>
                error (ui (step (Change [leaf_a]) init)) = None"
    using exclusive_blocks [of "step (Change [leaf_a]) init"] reachable_pending_a
    by blast
  have "shows_upload_prompt (ui init)"
    by (simp add: shows_upload_prompt_def init_fields)
  then have c: "selectedFile (ui init) = None"
    using exclusive_blocks [of init] reachable_init
    by blast
  from a b c show ?thesis by blast
qed

text \<open>
  C3 as stated allows at most one of the three in every reachable state. Below, B is
  dropped while A's request is pending, A's request succeeds and B's fails: the run ends
  with a result and an error side by side.
\<close>

theorem exclusive_blocks_counterexample:
  "map_option ui (exec init [Change [leaf_a], Drop [leaf_b],
                   Settle 0 (HttpResponse 200 (body_of ''Healthy'')),
                   Settle 1 NetworkError]) =
     Some \<lparr>selectedFile = Some leaf_b, preview = Some 1,
            results = Some \<lparr>condition = JStr ''Healthy'', confidence = 98\<rparr>,
            isAnalyzing = False, error = Some failure_message, dragActive = False\<rparr> \<and>
   map_option (active_blocks \<circ> ui) (exec init [Change [leaf_a], Drop [leaf_b],
                   Settle 0 (HttpResponse 200 (body_of ''Healthy'')),
                   Settle 1 NetworkError]) = Some 2"
  by (simp add: init_fields state_pending_ab step_Settle settle_def
                analyzeImage_resume_def validateStatus_def body_of_def active_blocks_def)

section \<open>Preview URLs\<close>

text \<open>
  C4, as the code has it. No object URL is ever released. Reset, offered beside a result
  or an error, returns the component to the idle page (no file, no preview, no result, no
  error, not analysing) and releases nothing; an accepted selection creates one more URL
  and releases nothing, so the URL it supersedes stays alive.
\<close>

theorem preview_never_released:
  assumes "reachable w"
  shows "revokedURLs w = [] \<and> release_count w u = 0 \<and>
         (enabled Reset w \<longrightarrow>
            step Reset w =
              w\<lparr>ui := \<lparr>selectedFile = None, preview = None, results = None,
                        isAnalyzing = False, error = None,
                        dragActive = dragActive (ui w)\<rparr>\<rparr>) \<and>
         (prefix ''image/'' (file_type f) \<and> (e = Change (f # rest) \<or> e = Drop (f # rest)) \<longrightarrow>
            createdURLs (step e w) = createdURLs w @ [length (createdURLs w)] \<and>
            revokedURLs (step e w) = [])"
proof -
  have c: "coherent w"
    using assms by (rule reachable_coherent)
  then have r: "revokedURLs w = []"
    by (simp add: coherent_def)
  have reset: "step Reset w =
              w\<lparr>ui := \<lparr>selectedFile = None, preview = None, results = None,
                        isAnalyzing = False, error = None,
                        dragActive = dragActive (ui w)\<rparr>\<rparr>" if "enabled Reset w"
  proof -
    have "\<not> isAnalyzing (ui w)"
      using c that by (auto simp: coherent_def)
    then show ?thesis
      by (simp add: step_Reset resetAnalysis_def)
  qed
  have sel: "createdURLs (step e w) = createdURLs w @ [length (createdURLs w)] \<and>
             revokedURLs (step e w) = []"
    if "prefix ''image/'' (file_type f)" "e = Change (f # rest) \<or> e = Drop (f # rest)"
    unfolding step_accept [OF assms that] by (simp add: r)
  from r reset sel show ?thesis
    by (simp add: release_count_def)
qed

theorem preview_never_released_witness:
  "step Reset (step (Settle 0 (HttpResponse 200 (body_of ''Healthy''))) (step (Change [leaf_a]) init))
     = \<lparr>ui = \<lparr>selectedFile = None, preview = None, results = None,
               isAnalyzing = False, error = None, dragActive = False\<rparr>,
         createdURLs = [0], revokedURLs = [], requests = [Some leaf_a], pending = []\<rparr> \<and>
   release_count (step (Settle 0 (HttpResponse 200 (body_of ''Healthy'')))
                   (step (Change [leaf_a]) init)) 0 = 0 \<and>
   createdURLs (step (Drop [leaf_b])
     (step (Settle 0 (HttpResponse 200 (body_of ''Healthy''))) (step (Change [leaf_a]) init)))
     = [0, 1] \<and>
   revokedURLs (step (Drop [leaf_b])
     (step (Settle 0 (HttpResponse 200 (body_of ''Healthy''))) (step (Change [leaf_a]) init)))
     = []"
proof -
  have t: "prefix ''image/'' (file_type leaf_b)"
    by (simp add: leaf_b_def)
  show ?thesis
    using preview_never_released [OF reachable_done_a, where u = 0 and f = leaf_b
            and e = "Drop [leaf_b]" and rest = "[]"] t
    by (simp add: state_done_a)
qed

text \<open>
  C4 as stated has every preview URL released exactly once. Below, a reset after a
  successful analysis leaves URL 0 created and never released, and a second selection
  leaves both URLs created and none released.
\<close>

theorem preview_leak_counterexample:
  "exec init [Change [leaf_a], Settle 0 (HttpResponse 200 (body_of ''Healthy'')), Reset] =
     Some \<lparr>ui = \<lparr>selectedFile = None, preview = None, results = None,
                  isAnalyzing = False, error = None, dragActive = False\<rparr>,
            createdURLs = [0], revokedURLs = [], requests = [Some leaf_a], pending = []\<rparr> \<and>
   map_option revokedURLs (exec init [Change [leaf_a], Drop [leaf_b]]) = Some [] \<and>
   map_option createdURLs (exec init [Change [leaf_a], Drop [leaf_b]]) = Some [0, 1]"
proof -
  have "exec init [Change [leaf_a], Settle 0 (HttpResponse 200 (body_of ''Healthy'')), Reset] =
     Some \<lparr>ui = \<lparr>selectedFile = None, preview = None, results = None,
                  isAnalyzing = False, error = None, dragActive = False\<rparr>,
            createdURLs = [0], revokedURLs = [], requests = [Some leaf_a], pending = []\<rparr>"
    by (simp add: init_fields pending_pending_a state_done_a step_Reset resetAnalysis_def)
  moreover have "exec init [Change [leaf_a], Drop [leaf_b]] =
                 Some (step (Drop [leaf_b]) (step (Change [leaf_a]) init))"
    by (simp add: init_fields)
  ultimately show ?thesis
    by (simp add: state_pending_ab)
qed

end
